theory Spec2Isabelle
  imports Complex_Main "HOL-Library.Word"
begin

section \<open>Data model of the player (src/App.tsx, second revision, and src/components/Stage.tsx)\<close>

text \<open>
  JavaScript numbers are modelled as exact reals: rounding, NaN and the infinities are not
  represented. Array indices and lengths are integers. A nullable or optional string is a
  \<open>string option\<close>; the truthiness test that the handlers apply to such a value
  (\<open>!activeTrackId\<close>, \<open>session?.user.id &&\<close>, \<open>track.audioUrl\<close>) is \<open>truthy\<close>:
  null, undefined and the empty string are falsy.
\<close>

datatype View = LIBRARY | STAGE | PROFILE | SEARCH

text \<open>
  Of a \<open>Track\<close> the transport handlers read the id and the audio source only; title,
  artist, bpm, favourite flag, cover, owner and storage path are left out.
\<close>

record Track =
  id_t :: string
  audioUrl :: "string option"

text \<open>The \<open>audio\<close> element behind \<open>audioRef\<close>: the attributes the handlers read or assign.\<close>

record HTMLAudioElement =
  el_src :: "string option"
  el_currentTime :: real
  el_duration :: real

datatype ctx_state = Suspended | Running

record AppState =
  currentView :: View
  isShuffle :: bool
  tracks :: "Track list"
  session :: "string option"
  activeTrackId :: "string option"
  isPlaying :: bool
  currentTime :: real
  duration :: real
  currentQueue :: "Track list"
  audioRef :: "HTMLAudioElement option"
  audioContextRef :: "ctx_state option"

text \<open>
  What a handler receives from outside during one call: the state of a freshly constructed
  audio context, whether the promise returned by \<open>play()\<close> rejects, the value of
  \<open>Math.random()\<close>, and the answers of the profile store to the two \<open>select\<close> queries
  (\<open>maybeSingle\<close>: an error, no row, or a row whose column may be null).
\<close>

datatype 'a fetched = FetchError | NoRow | Row "'a option"

record Env =
  newContextState :: ctx_state
  playRejects :: bool
  mathRandom :: real
  totalPlays :: "int fetched"
  totalPlaytime :: "real fetched"

text \<open>
  What a handler does to its collaborators, in the order of the calls in its text: commands
  to the audio element and the audio context, console output, writes to the profile store
  (user id and the new column value), and an exception that leaves the handler. The
  console line of a rejected \<open>play()\<close> is listed with the call, although the rejection
  arrives later. Events that the audio element sends on its own (\<open>play\<close>, \<open>pause\<close>,
  \<open>timeupdate\<close>, \<open>loadedmetadata\<close>, \<open>ended\<close>) are inputs from outside, not effects.
\<close>

datatype js_error = TypeError

datatype effect =
    CreateAudioGraph
  | ResumeContext
  | SetSrc string
  | Play
  | Pause
  | ConsoleError string
  | UpdateTotalPlays string int
  | UpdateTotalPlaytime string real
  | Uncaught js_error

section \<open>JavaScript primitives used by the handlers\<close>

definition truthy :: "string option \<Rightarrow> bool" where
  "truthy v = (case v of None \<Rightarrow> False | Some s \<Rightarrow> s \<noteq> [])"

text \<open>\<open>v || 0\<close> on a nullable number.\<close>

definition or_zero :: "'a::zero option \<Rightarrow> 'a" where
  "or_zero v = (case v of None \<Rightarrow> 0 | Some n \<Rightarrow> n)"

text \<open>\<open>Array.prototype.findIndex\<close>: the first index whose element satisfies the test, else -1.\<close>

fun findIndex_from :: "('a \<Rightarrow> bool) \<Rightarrow> 'a list \<Rightarrow> int \<Rightarrow> int" where
  "findIndex_from P [] k = - 1"
| "findIndex_from P (x # xs) k = (if P x then k else findIndex_from P xs (k + 1))"

definition findIndex :: "('a \<Rightarrow> bool) \<Rightarrow> 'a list \<Rightarrow> int" where
  "findIndex P xs = findIndex_from P xs 0"

text \<open>
  The remainder operator \<open>%\<close> on integers: the result has the sign of the dividend; a zero
  divisor gives NaN, here \<open>None\<close>.
\<close>

definition js_rem :: "int \<Rightarrow> int \<Rightarrow> int option" where
  "js_rem a b = (if b = 0 then None else Some (sgn a * (\<bar>a\<bar> mod \<bar>b\<bar>)))"

text \<open>
  \<open>xs[k].id\<close>: an index outside the array (or NaN) reads \<open>undefined\<close>, and the property
  access on it throws a TypeError.
\<close>

definition id_at :: "Track list \<Rightarrow> int option \<Rightarrow> js_error + string" where
  "id_at xs k =
     (case k of
        None \<Rightarrow> Inl TypeError
      | Some i \<Rightarrow> if 0 \<le> i \<and> i < int (length xs) then Inr (id_t (xs ! nat i)) else Inl TypeError)"

section \<open>The transport handlers of App\<close>

definition initAudioEngine :: "Env \<Rightarrow> AppState \<Rightarrow> AppState \<times> effect list" where
  "initAudioEngine env s =
     (let (s1, e1) =
            (if audioContextRef s = None \<and> audioRef s \<noteq> None
             then (s\<lparr>audioContextRef := Some (newContextState env)\<rparr>, [CreateAudioGraph])
             else (s, []))
      in if audioContextRef s1 = Some Suspended then (s1, e1 @ [ResumeContext]) else (s1, e1))"

text \<open>The play-count report of \<open>handleTrackSelect\<close> (read, then write the incremented value).\<close>

definition reportPlay :: "Env \<Rightarrow> AppState \<Rightarrow> effect list" where
  "reportPlay env s =
     (case session s of
        None \<Rightarrow> []
      | Some uid \<Rightarrow>
          if uid = [] then []
          else (case totalPlays env of
                  Row p \<Rightarrow> [UpdateTotalPlays uid (or_zero p + 1)]
                | _ \<Rightarrow> []))"

definition handleTrackSelect ::
    "Env \<Rightarrow> string \<Rightarrow> Track list option \<Rightarrow> AppState \<Rightarrow> AppState \<times> effect list" where
  "handleTrackSelect env trackId queue s =
     (let (s1, e1) = initAudioEngine env s;
          s2 = (case queue of
                  Some q \<Rightarrow> s1\<lparr>currentQueue := q\<rparr>
                | None \<Rightarrow> if currentQueue s = [] then s1\<lparr>currentQueue := tracks s\<rparr> else s1);
          targetQueue = (case queue of
                           Some q \<Rightarrow> q
                         | None \<Rightarrow> if currentQueue s \<noteq> [] then currentQueue s else tracks s)
      in case find (\<lambda>t. id_t t = trackId) targetQueue of
           None \<Rightarrow> (s2, e1)
         | Some track \<Rightarrow>
             let (s3, e3) =
                   (if activeTrackId s \<noteq> Some trackId then
                      (let s2a = s2\<lparr>activeTrackId := Some trackId\<rparr>
                       in case audioRef s2a of
                            None \<Rightarrow> (s2a, [])
                          | Some el \<Rightarrow>
                              (case audioUrl track of
                                 None \<Rightarrow> (s2a, [])
                               | Some url \<Rightarrow>
                                   if url = [] then (s2a, [])
                                   else (s2a\<lparr>audioRef := Some (el\<lparr>el_src := Some url\<rparr>),
                                              isPlaying := True\<rparr>,
                                         [SetSrc url, Play]
                                         @ (if playRejects env
                                            then [ConsoleError ''Playback failed:''] else [])
                                         @ reportPlay env s)))
                    else (s2, []))
             in (s3\<lparr>currentView := STAGE\<rparr>, e1 @ e3))"

definition togglePlay :: "Env \<Rightarrow> AppState \<Rightarrow> AppState \<times> effect list" where
  "togglePlay env s =
     (let (s1, e1) = initAudioEngine env s
      in if audioRef s1 = None \<or> \<not> truthy (activeTrackId s) then (s1, e1)
         else
           (let e2 = (if audioContextRef s1 = Some Suspended then [ResumeContext] else []);
                e3 = (if isPlaying s then [Pause]
                      else Play # (if playRejects env
                                   then [ConsoleError ''Playback failed:''] else []))
            in (s1\<lparr>isPlaying := \<not> isPlaying s\<rparr>, e1 @ e2 @ e3)))"

text \<open>
  The playtime report of \<open>handleNext\<close> (read, then write the value increased by the
  \<open>duration\<close> state).
\<close>

definition reportPlaytime :: "Env \<Rightarrow> AppState \<Rightarrow> effect list" where
  "reportPlaytime env s =
     (case session s of
        None \<Rightarrow> []
      | Some uid \<Rightarrow>
          if uid \<noteq> [] \<and> duration s > 0 then
            (case totalPlaytime env of
               Row p \<Rightarrow> [UpdateTotalPlaytime uid (or_zero p + duration s)]
             | _ \<Rightarrow> [])
          else [])"

text \<open>
  The random pick shared by both shuffle branches:
  \<open>otherTracks[Math.floor(Math.random() * otherTracks.length)].id\<close>, or the active id when
  no other track is left.
\<close>

definition shufflePick :: "Env \<Rightarrow> string \<Rightarrow> Track list \<Rightarrow> js_error + string" where
  "shufflePick env active q =
     (let otherTracks = filter (\<lambda>t. id_t t \<noteq> active) q
      in if length otherTracks > 0
         then id_at otherTracks (Some \<lfloor>mathRandom env * real (length otherTracks)\<rfloor>)
         else Inr active)"

text \<open>The value of the local \<open>nextTrackId\<close> of \<open>handleNext\<close>.\<close>

definition nextTrackId :: "Env \<Rightarrow> string \<Rightarrow> Track list \<Rightarrow> bool \<Rightarrow> js_error + string" where
  "nextTrackId env active q shuffle =
     (if shuffle then shufflePick env active q
      else
        (let currentIndex = findIndex (\<lambda>t. id_t t = active) q;
             nextIndex = js_rem (currentIndex + 1) (int (length q))
         in id_at q nextIndex))"

text \<open>The value of the local \<open>prevTrackId\<close> of \<open>handlePrevious\<close>.\<close>

definition prevTrackId :: "Env \<Rightarrow> string \<Rightarrow> Track list \<Rightarrow> bool \<Rightarrow> js_error + string" where
  "prevTrackId env active q shuffle =
     (if shuffle then shufflePick env active q
      else
        (let currentIndex = findIndex (\<lambda>t. id_t t = active) q;
             prevIndex = js_rem (currentIndex - 1 + int (length q)) (int (length q))
         in id_at q prevIndex))"

definition handleNext :: "Env \<Rightarrow> AppState \<Rightarrow> AppState \<times> effect list" where
  "handleNext env s =
     (case activeTrackId s of
        None \<Rightarrow> (s, [])
      | Some active \<Rightarrow>
          if active = [] \<or> length (currentQueue s) = 0 then (s, [])
          else
            (let e1 = reportPlaytime env s
             in case nextTrackId env active (currentQueue s) (isShuffle s) of
                  Inl err \<Rightarrow> (s, e1 @ [Uncaught err])
                | Inr nid \<Rightarrow>
                    (let (s', e2) = handleTrackSelect env nid None s in (s', e1 @ e2))))"

definition handlePrevious :: "Env \<Rightarrow> AppState \<Rightarrow> AppState \<times> effect list" where
  "handlePrevious env s =
     (case activeTrackId s of
        None \<Rightarrow> (s, [])
      | Some active \<Rightarrow>
          if active = [] \<or> length (currentQueue s) = 0 then (s, [])
          else
            (let advance =
                   (case prevTrackId env active (currentQueue s) (isShuffle s) of
                      Inl err \<Rightarrow> (s, [Uncaught err])
                    | Inr pid \<Rightarrow> handleTrackSelect env pid None s)
             in case audioRef s of
                  None \<Rightarrow> advance
                | Some el \<Rightarrow>
                    if el_currentTime el > 3
                    then (s\<lparr>audioRef := Some (el\<lparr>el_currentTime := 0\<rparr>)\<rparr>, [])
                    else advance))"

definition handleTimeUpdate :: "AppState \<Rightarrow> AppState" where
  "handleTimeUpdate s =
     (case audioRef s of None \<Rightarrow> s | Some el \<Rightarrow> s\<lparr>currentTime := el_currentTime el\<rparr>)"

definition handleLoadedMetadata :: "AppState \<Rightarrow> AppState" where
  "handleLoadedMetadata s =
     (case audioRef s of None \<Rightarrow> s | Some el \<Rightarrow> s\<lparr>duration := el_duration el\<rparr>)"

definition handleSeek :: "real \<Rightarrow> AppState \<Rightarrow> AppState" where
  "handleSeek time s =
     (case audioRef s of
        None \<Rightarrow> s
      | Some el \<Rightarrow> s\<lparr>audioRef := Some (el\<lparr>el_currentTime := time\<rparr>), currentTime := time\<rparr>)"

definition toggleShuffle :: "AppState \<Rightarrow> AppState" where
  "toggleShuffle s = s\<lparr>isShuffle := \<not> isShuffle s\<rparr>"

section \<open>The progress bar and the spectrum bars of Stage (src/components/Stage.tsx)\<close>

text \<open>\<open>progressPercentage\<close>, the same expression in Stage and in Library.\<close>

definition progressPercentage :: "real \<Rightarrow> real \<Rightarrow> real" where
  "progressPercentage ct d = (if d \<noteq> 0 then (ct / d) * 100 else 0)"











section \<open>Example tracks, environments and states\<close>

definition trackA :: Track where
  "trackA = \<lparr>id_t = ''a'', audioUrl = Some ''a.mp3''\<rparr>"

definition trackB :: Track where
  "trackB = \<lparr>id_t = ''b'', audioUrl = Some ''b.mp3''\<rparr>"

definition trackC :: Track where
  "trackC = \<lparr>id_t = ''c'', audioUrl = Some ''c.mp3''\<rparr>"

text \<open>A signed-in user whose profile row reads 3 plays and 10 seconds; \<open>play()\<close> succeeds.\<close>

definition env_ok :: Env where
  "env_ok = \<lparr>newContextState = Running, playRejects = False, mathRandom = 1 / 2,
              totalPlays = Row (Some 3), totalPlaytime = Row (Some 10)\<rparr>"

text \<open>The same, with a \<open>play()\<close> whose promise rejects.\<close>

definition env_fail :: Env where
  "env_fail = env_ok\<lparr>playRejects := True\<rparr>"

text \<open>
  The state in which track \<open>active\<close> plays from queue \<open>q\<close>, \<open>elapsed\<close> seconds into a
  track of 200 seconds, shuffle off.
\<close>

definition playing :: "string \<Rightarrow> Track list \<Rightarrow> real \<Rightarrow> AppState" where
  "playing active q elapsed =
     \<lparr>currentView = STAGE, isShuffle = False, tracks = [trackA, trackB, trackC],
      session = Some ''user'', activeTrackId = Some active, isPlaying = True,
      currentTime = elapsed, duration = 200, currentQueue = q,
      audioRef = Some \<lparr>el_src = Some (active @ ''.mp3''), el_currentTime = elapsed,
                         el_duration = 200\<rparr>,
      audioContextRef = Some Running\<rparr>"

text \<open>The state after mounting: nothing selected, empty queue, audio element present.\<close>

definition mounted :: AppState where
  "mounted =
     \<lparr>currentView = LIBRARY, isShuffle = False, tracks = [trackA, trackB, trackC],
      session = Some ''user'', activeTrackId = None, isPlaying = False,
      currentTime = 0, duration = 0, currentQueue = [],
      audioRef = Some \<lparr>el_src = None, el_currentTime = 0, el_duration = 0\<rparr>,
      audioContextRef = None\<rparr>"


section \<open>Auxiliary facts about the primitives and about track selection\<close>

lemma findIndex_from_absent:
  "\<forall>x \<in> set xs. \<not> P x \<Longrightarrow> findIndex_from P xs k = - 1"
  by (induction xs arbitrary: k) auto

lemma findIndex_from_first:
  "i < length xs \<Longrightarrow> P (xs ! i) \<Longrightarrow> \<forall>j < i. \<not> P (xs ! j)
    \<Longrightarrow> findIndex_from P xs k = k + int i"
proof (induction xs arbitrary: i k)
  case Nil
  then show ?case by simp
next
  case (Cons x xs)
  show ?case
  proof (cases i)
    case 0
    with Cons.prems show ?thesis by simp
  next
    case (Suc n)
    with Cons.prems have "\<not> P x" by auto
    moreover have "findIndex_from P xs (k + 1) = (k + 1) + int n"
      using Cons.prems Suc by (intro Cons.IH) auto
    ultimately show ?thesis using Suc by simp
  qed
qed

lemma findIndex_from_bounds:
  "findIndex_from P xs k = - 1 \<or> (k \<le> findIndex_from P xs k \<and> findIndex_from P xs k < k + int (length xs))"
  by (induction xs arbitrary: k) (auto, force+)

lemma findIndex_absent:
  "a \<notin> id_t ` set q \<Longrightarrow> findIndex (\<lambda>t. id_t t = a) q = - 1"
  unfolding findIndex_def by (rule findIndex_from_absent) auto

lemma findIndex_distinct:
  assumes "distinct (map id_t q)" and "i < length q"
  shows "findIndex (\<lambda>t. id_t t = id_t (q ! i)) q = int i"
proof -
  have "\<forall>j < i. id_t (q ! j) \<noteq> id_t (q ! i)"
    using assms by (auto simp: distinct_conv_nth)
  with assms(2) have "findIndex_from (\<lambda>t. id_t t = id_t (q ! i)) q 0 = 0 + int i"
    by (intro findIndex_from_first) auto
  then show ?thesis by (simp add: findIndex_def)
qed

lemma findIndex_bounds:
  "- 1 \<le> findIndex P xs \<and> findIndex P xs < int (length xs)"
  using findIndex_from_bounds [of P xs 0] by (auto simp: findIndex_def)

lemma id_at_inside:
  "0 \<le> i \<Longrightarrow> i < int (length q) \<Longrightarrow> id_at q (Some i) = Inr (id_t (q ! nat i))"
  by (simp add: id_at_def)

lemma find_id_member:
  "n \<in> id_t ` set q \<Longrightarrow> \<exists>t. find (\<lambda>t. id_t t = n) q = Some t"
  by (cases "find (\<lambda>t. id_t t = n) q") (auto simp: find_None_iff)

lemma initAudioEngine_frame:
  "activeTrackId (fst (initAudioEngine env s)) = activeTrackId s"
  "currentQueue (fst (initAudioEngine env s)) = currentQueue s"
  "isShuffle (fst (initAudioEngine env s)) = isShuffle s"
  "isPlaying (fst (initAudioEngine env s)) = isPlaying s"
  "audioRef (fst (initAudioEngine env s)) = audioRef s"
  "tracks (fst (initAudioEngine env s)) = tracks s"
  by (simp_all add: initAudioEngine_def Let_def split: prod.splits)

lemma handleTrackSelect_member:
  assumes "currentQueue s \<noteq> []" and "n \<in> id_t ` set (currentQueue s)"
  shows "activeTrackId (fst (handleTrackSelect env n None s)) = Some n"
    and "currentQueue (fst (handleTrackSelect env n None s)) = currentQueue s"
    and "isShuffle (fst (handleTrackSelect env n None s)) = isShuffle s"
proof -
  obtain t where t: "find (\<lambda>t. id_t t = n) (currentQueue s) = Some t"
    using find_id_member [OF assms(2)] by blast
  obtain s1 e1 where i: "initAudioEngine env s = (s1, e1)" by (cases "initAudioEngine env s")
  have f: "activeTrackId s1 = activeTrackId s" "currentQueue s1 = currentQueue s"
    "isShuffle s1 = isShuffle s"
    using initAudioEngine_frame [of env s] i by simp_all
  show "activeTrackId (fst (handleTrackSelect env n None s)) = Some n"
    using assms(1) t i f
    by (auto simp: handleTrackSelect_def Let_def split: option.splits prod.splits if_splits)
  show "currentQueue (fst (handleTrackSelect env n None s)) = currentQueue s"
    using assms(1) t i f
    by (auto simp: handleTrackSelect_def Let_def split: option.splits prod.splits if_splits)
  show "isShuffle (fst (handleTrackSelect env n None s)) = isShuffle s"
    using assms(1) t i f
    by (auto simp: handleTrackSelect_def Let_def split: option.splits prod.splits if_splits)
qed

lemma js_rem_nonneg: "0 \<le> a \<Longrightarrow> 0 < b \<Longrightarrow> js_rem a b = Some (a mod b)"
  by (cases "a = 0") (simp_all add: js_rem_def)

lemma floor_random_index:
  assumes "0 \<le> r" and "r < 1" and "0 < n"
  shows "0 \<le> \<lfloor>r * real n\<rfloor> \<and> \<lfloor>r * real n\<rfloor> < int n"
proof -
  have "0 \<le> r * real n" using assms by simp
  moreover have "r * real n < real n" using assms by simp
  ultimately show ?thesis by (simp add: floor_less_iff)
qed

lemma shufflePick_others:
  assumes "0 \<le> mathRandom env" and "mathRandom env < 1"
    and "\<exists>t \<in> set q. id_t t \<noteq> a"
  shows "\<exists>b. shufflePick env a q = Inr b \<and> b \<noteq> a \<and> b \<in> id_t ` set q"
proof -
  let ?o = "filter (\<lambda>t. id_t t \<noteq> a) q"
  let ?k = "\<lfloor>mathRandom env * real (length ?o)\<rfloor>"
  from assms(3) have ne: "0 < length ?o" by (auto simp: filter_empty_conv)
  from floor_random_index [OF assms(1,2) ne] have k: "0 \<le> ?k" "?k < int (length ?o)" by auto
  then have "nat ?k < length ?o" by linarith
  then have mem: "?o ! nat ?k \<in> set ?o" by (rule nth_mem)
  have "shufflePick env a q = Inr (id_t (?o ! nat ?k))"
    using ne k by (simp add: shufflePick_def Let_def id_at_inside)
  moreover from mem have "id_t (?o ! nat ?k) \<noteq> a" "?o ! nat ?k \<in> set q" by auto
  ultimately show ?thesis by blast
qed

lemma shufflePick_alone:
  assumes "\<forall>t \<in> set q. id_t t = a"
  shows "shufflePick env a q = Inr a"
  using assms by (simp add: shufflePick_def Let_def filter_empty_conv)

lemma nextTrackId_absent:
  assumes "q \<noteq> []" and "a \<notin> id_t ` set q"
  shows "nextTrackId env a q False = Inr (id_t (q ! 0))"
  using assms by (simp add: nextTrackId_def findIndex_absent js_rem_def id_at_def)

lemma prevTrackId_absent:
  assumes "q \<noteq> []" and "a \<notin> id_t ` set q"
  shows "prevTrackId env a q False = Inr (id_t (q ! (length q - 2)))"
proof -
  let ?n = "int (length q)"
  have idx: "findIndex (\<lambda>t. id_t t = a) q - 1 + ?n = ?n - 2"
    using assms(2) by (simp add: findIndex_absent)
  show ?thesis
  proof (cases "length q = 1")
    case True
    then show ?thesis
      unfolding prevTrackId_def Let_def idx by (simp add: js_rem_def id_at_def)
  next
    case False
    with assms(1) have len: "2 \<le> length q" by (cases q) (auto simp: Suc_le_eq)
    then have "js_rem (?n - 2) ?n = Some ((?n - 2) mod ?n)"
      by (intro js_rem_nonneg) auto
    moreover from len have "(?n - 2) mod ?n = ?n - 2"
      by (intro mod_pos_pos_trivial) auto
    ultimately have "js_rem (?n - 2) ?n = Some (?n - 2)"
      by (simp only:)
    moreover have "nat (?n - 2) = length q - 2" by simp
    ultimately show ?thesis using len
      unfolding prevTrackId_def Let_def idx by (simp add: id_at_def)
  qed
qed

lemma js_rem_index:
  assumes "0 < b" and "0 \<le> a \<or> (a = - 1 \<and> b = 1)"
  shows "\<exists>r. js_rem a b = Some r \<and> 0 \<le> r \<and> r < b"
proof (cases "0 \<le> a")
  case True
  then have "js_rem a b = Some (a mod b)" using assms(1) by (rule js_rem_nonneg)
  with assms(1) show ?thesis by simp
next
  case False
  with assms(2) have "a = - 1" "b = 1" by auto
  then show ?thesis by (simp add: js_rem_def)
qed

lemma id_at_member:
  assumes "0 \<le> r" and "r < int (length q)"
  shows "\<exists>n. id_at q (Some r) = Inr n \<and> n \<in> id_t ` set q"
proof -
  from assms have "nat r < length q" by linarith
  then have "q ! nat r \<in> set q" by (rule nth_mem)
  with assms show ?thesis by (auto simp: id_at_def)
qed

lemma shufflePick_member:
  assumes "q \<noteq> []" and "0 \<le> mathRandom env" and "mathRandom env < 1"
  shows "\<exists>n. shufflePick env a q = Inr n \<and> n \<in> id_t ` set q"
proof (cases "\<exists>t \<in> set q. id_t t \<noteq> a")
  case True
  from shufflePick_others [OF assms(2,3) True] show ?thesis by blast
next
  case False
  then have all: "\<forall>t \<in> set q. id_t t = a" by blast
  from assms(1) obtain t where "t \<in> set q" by (cases q) auto
  with all have "a \<in> id_t ` set q" by force
  with shufflePick_alone [OF all] show ?thesis by blast
qed

lemma nextTrackId_member:
  assumes "q \<noteq> []" and "0 \<le> mathRandom env" and "mathRandom env < 1"
  shows "\<exists>n. nextTrackId env a q sh = Inr n \<and> n \<in> id_t ` set q"
proof (cases sh)
  case True
  with shufflePick_member [OF assms] show ?thesis by (simp add: nextTrackId_def)
next
  case False
  let ?i = "findIndex (\<lambda>t. id_t t = a) q"
  from assms(1) have len: "0 < int (length q)" by simp
  have "0 \<le> ?i + 1" using findIndex_bounds [of "\<lambda>t. id_t t = a" q] by simp
  with js_rem_index [OF len, of "?i + 1"]
  obtain r where r: "js_rem (?i + 1) (int (length q)) = Some r" "0 \<le> r" "r < int (length q)"
    by blast
  from id_at_member [OF r(2,3)] r(1) False show ?thesis
    by (simp add: nextTrackId_def)
qed

lemma prevTrackId_member:
  assumes "q \<noteq> []" and "0 \<le> mathRandom env" and "mathRandom env < 1"
  shows "\<exists>n. prevTrackId env a q sh = Inr n \<and> n \<in> id_t ` set q"
proof (cases sh)
  case True
  with shufflePick_member [OF assms] show ?thesis by (simp add: prevTrackId_def)
next
  case False
  let ?i = "findIndex (\<lambda>t. id_t t = a) q"
  let ?n = "int (length q)"
  from assms(1) have len: "0 < ?n" by simp
  have "0 \<le> ?i - 1 + ?n \<or> (?i - 1 + ?n = - 1 \<and> ?n = 1)"
    using findIndex_bounds [of "\<lambda>t. id_t t = a" q] len by linarith
  with js_rem_index [OF len, of "?i - 1 + ?n"]
  obtain r where r: "js_rem (?i - 1 + ?n) ?n = Some r" "0 \<le> r" "r < ?n"
    by blast
  from id_at_member [OF r(2,3)] r(1) False show ?thesis
    by (simp add: prevTrackId_def)
qed

lemma handleNext_advance:
  assumes "activeTrackId s = Some a" and "a \<noteq> []" and "currentQueue s \<noteq> []"
    and "nextTrackId env a (currentQueue s) (isShuffle s) = Inr n"
  shows "handleNext env s =
           (fst (handleTrackSelect env n None s),
            reportPlaytime env s @ snd (handleTrackSelect env n None s))"
  using assms by (simp add: handleNext_def Let_def split: prod.splits)

lemma handlePrevious_advance:
  assumes "activeTrackId s = Some a" and "a \<noteq> []" and "currentQueue s \<noteq> []"
    and "\<forall>el. audioRef s = Some el \<longrightarrow> el_currentTime el \<le> 3"
    and "prevTrackId env a (currentQueue s) (isShuffle s) = Inr p"
  shows "handlePrevious env s = handleTrackSelect env p None s"
  using assms by (auto simp: handlePrevious_def Let_def split: option.splits)

lemmas fixtures =
  trackA_def trackB_def trackC_def env_ok_def env_fail_def playing_def mounted_def

lemmas handler_defs =
  handleNext_def handlePrevious_def handleTrackSelect_def togglePlay_def initAudioEngine_def
  reportPlaytime_def reportPlay_def nextTrackId_def prevTrackId_def shufflePick_def
  findIndex_def js_rem_def id_at_def or_zero_def truthy_def

lemma handleNext_selects:
  assumes "activeTrackId s = Some a" and "a \<noteq> []"
    and "nextTrackId env a (currentQueue s) (isShuffle s) = Inr n"
    and "n \<in> id_t ` set (currentQueue s)"
  shows "activeTrackId (fst (handleNext env s)) = Some n"
    and "currentQueue (fst (handleNext env s)) = currentQueue s"
    and "isShuffle (fst (handleNext env s)) = isShuffle s"
proof -
  from assms(4) have qs: "currentQueue s \<noteq> []" by auto
  have "fst (handleNext env s) = fst (handleTrackSelect env n None s)"
    using handleNext_advance [OF assms(1,2) qs assms(3)] by simp
  with handleTrackSelect_member [OF qs assms(4), of env]
  show "activeTrackId (fst (handleNext env s)) = Some n"
    and "currentQueue (fst (handleNext env s)) = currentQueue s"
    and "isShuffle (fst (handleNext env s)) = isShuffle s"
    by simp_all
qed

lemma handlePrevious_selects:
  assumes "activeTrackId s = Some a" and "a \<noteq> []"
    and "\<forall>el. audioRef s = Some el \<longrightarrow> el_currentTime el \<le> 3"
    and "prevTrackId env a (currentQueue s) (isShuffle s) = Inr p"
    and "p \<in> id_t ` set (currentQueue s)"
  shows "activeTrackId (fst (handlePrevious env s)) = Some p"
    and "currentQueue (fst (handlePrevious env s)) = currentQueue s"
    and "isShuffle (fst (handlePrevious env s)) = isShuffle s"
proof -
  from assms(5) have qs: "currentQueue s \<noteq> []" by auto
  have "handlePrevious env s = handleTrackSelect env p None s"
    using assms(1,2) qs assms(3,4) by (rule handlePrevious_advance)
  with handleTrackSelect_member [OF qs assms(5), of env]
  show "activeTrackId (fst (handlePrevious env s)) = Some p"
    and "currentQueue (fst (handlePrevious env s)) = currentQueue s"
    and "isShuffle (fst (handlePrevious env s)) = isShuffle s"
    by simp_all
qed

lemma handlePrevious_keeps_sole_track:
  assumes "activeTrackId s = Some a" and "a \<in> id_t ` set (currentQueue s)"
    and "prevTrackId env a (currentQueue s) (isShuffle s) = Inr a"
  shows "activeTrackId (fst (handlePrevious env s)) = Some a"
proof -
  from assms(2) have ne: "currentQueue s \<noteq> []" by auto
  have sel: "activeTrackId (fst (handleTrackSelect env a None s)) = Some a"
    using ne assms(2) by (rule handleTrackSelect_member(1))
  show ?thesis
    using assms(1,3) sel
    by (auto simp: handlePrevious_def Let_def split: option.splits)
qed

lemma distinct_ids_other_member:
  assumes "distinct (map id_t q)" and "2 \<le> length q"
  shows "\<exists>t \<in> set q. id_t t \<noteq> a"
proof -
  from assms(2) obtain x y r where q: "q = x # y # r"
    by (cases q; cases "tl q") auto
  with assms(1) have "id_t x \<noteq> id_t y" by auto
  then have "id_t x \<noteq> a \<or> id_t y \<noteq> a" by auto
  with q show ?thesis by auto
qed

lemma single_member_is_active:
  assumes "length q = 1" and "a \<in> id_t ` set q"
  shows "\<forall>t \<in> set q. id_t t = a"
proof -
  from assms(1) obtain x where "q = [x]" by (cases q) auto
  with assms(2) show ?thesis by auto
qed

lemma next_index_back:
  fixes i n :: int
  assumes "0 \<le> i" and "i < n"
  shows "((i + 1) mod n - 1 + n) mod n = i"
proof -
  have "((i + 1) mod n - 1 + n) mod n = ((i + 1) mod n - 1) mod n" by simp
  also have "\<dots> = (i + 1 - 1) mod n" by (rule mod_diff_left_eq)
  also have "\<dots> = i" using assms by simp
  finally show ?thesis .
qed

lemma next_then_previous_id:
  assumes "distinct (map id_t q)" and "i < length q"
  shows "\<exists>j < length q. nextTrackId env (id_t (q ! i)) q False = Inr (id_t (q ! j))
           \<and> prevTrackId env' (id_t (q ! j)) q False = Inr (id_t (q ! i))"
proof -
  let ?n = "int (length q)"
  let ?j = "(int i + 1) mod ?n"
  from assms(2) have n: "0 < ?n" by (cases q) simp_all
  then have j: "0 \<le> ?j" "?j < ?n" by simp_all
  then have jn: "nat ?j < length q" by linarith
  have fi: "findIndex (\<lambda>t. id_t t = id_t (q ! i)) q = int i"
    using assms by (rule findIndex_distinct)
  have fj: "findIndex (\<lambda>t. id_t t = id_t (q ! nat ?j)) q = ?j"
    using findIndex_distinct [OF assms(1) jn] j(1) by simp
  have r1: "js_rem (int i + 1) ?n = Some ?j"
    using n by (intro js_rem_nonneg) simp_all
  have "js_rem (?j - 1 + ?n) ?n = Some ((?j - 1 + ?n) mod ?n)"
    using n j(1) by (intro js_rem_nonneg) linarith+
  moreover have "(?j - 1 + ?n) mod ?n = int i"
    using assms(2) by (intro next_index_back) simp_all
  ultimately have r2: "js_rem (?j - 1 + ?n) ?n = Some (int i)" by (simp only:)
  have "nextTrackId env (id_t (q ! i)) q False = Inr (id_t (q ! nat ?j))"
    unfolding nextTrackId_def Let_def fi r1 using j by (simp add: id_at_def)
  moreover have "prevTrackId env' (id_t (q ! nat ?j)) q False = Inr (id_t (q ! i))"
    unfolding prevTrackId_def Let_def fj r2 using assms(2) by (simp add: id_at_def)
  ultimately show ?thesis using jn by blast
qed

section \<open>Claims about the queue cursor\<close>

text \<open>
  C1, as amended. When the queue is not empty and no queue member carries the active id,
  \<open>findIndex\<close> answers -1 and there is no fallback to the active track: with shuffle off,
  the id computed by next is that of the first queue member, and the id computed by
  previous is that of the member at position length - 2 (of the only member in a queue of
  one). Both are ids of queue members and differ from the active id, and in a state with
  that active track and queue the id computed becomes the active id (for previous, when
  not more than 3 seconds have elapsed).
\<close>

theorem absent_active_track_moves_into_queue:
  assumes "q \<noteq> []" and "a \<notin> id_t ` set q"
  shows "nextTrackId env a q False = Inr (id_t (q ! 0))
       \<and> id_t (q ! 0) \<noteq> a
       \<and> prevTrackId env a q False = Inr (id_t (if length q = 1 then q ! 0 else q ! (length q - 2)))
       \<and> id_t (if length q = 1 then q ! 0 else q ! (length q - 2)) \<noteq> a
       \<and> (activeTrackId s = Some a \<and> a \<noteq> [] \<and> currentQueue s = q \<and> \<not> isShuffle s \<longrightarrow>
            activeTrackId (fst (handleNext env s)) = Some (id_t (q ! 0))
          \<and> ((\<forall>el. audioRef s = Some el \<longrightarrow> el_currentTime el \<le> 3) \<longrightarrow>
               activeTrackId (fst (handlePrevious env s))
                 = Some (id_t (if length q = 1 then q ! 0 else q ! (length q - 2)))))"
proof -
  let ?p = "if length q = 1 then q ! 0 else q ! (length q - 2)"
  have p_eq: "?p = q ! (length q - 2)" by simp
  have nx: "nextTrackId env a q False = Inr (id_t (q ! 0))"
    using assms by (rule nextTrackId_absent)
  have pv: "prevTrackId env a q False = Inr (id_t ?p)"
    unfolding p_eq using assms by (rule prevTrackId_absent)
  from assms(1) have m0: "q ! 0 \<in> set q" by simp
  from assms(1) have "length q - 2 < length q" by (cases q) auto
  then have mp: "?p \<in> set q" unfolding p_eq by (rule nth_mem)
  from m0 assms(2) have d0: "id_t (q ! 0) \<noteq> a" by force
  from mp assms(2) have dp: "id_t ?p \<noteq> a" by force
  have st: "activeTrackId (fst (handleNext env s)) = Some (id_t (q ! 0))
          \<and> ((\<forall>el. audioRef s = Some el \<longrightarrow> el_currentTime el \<le> 3) \<longrightarrow>
               activeTrackId (fst (handlePrevious env s)) = Some (id_t ?p))"
    if c: "activeTrackId s = Some a \<and> a \<noteq> [] \<and> currentQueue s = q \<and> \<not> isShuffle s"
  proof (intro conjI impI)
    from c have a: "activeTrackId s = Some a" "a \<noteq> []" and q: "currentQueue s = q"
      and sh: "isShuffle s = False"
      by simp_all
    show "activeTrackId (fst (handleNext env s)) = Some (id_t (q ! 0))"
      using a nx m0 unfolding q [symmetric] sh [symmetric]
      by (intro handleNext_selects(1)) auto
    show "activeTrackId (fst (handlePrevious env s)) = Some (id_t ?p)"
      if el: "\<forall>el. audioRef s = Some el \<longrightarrow> el_currentTime el \<le> 3"
    proof -
      have "prevTrackId env a (currentQueue s) (isShuffle s) = Inr (id_t ?p)"
        using pv q sh by simp
      moreover have "id_t ?p \<in> id_t ` set (currentQueue s)" using mp q by simp
      ultimately show ?thesis
        using a el handlePrevious_selects(1) [of s a env "id_t ?p"] by blast
    qed
  qed
  from nx d0 pv dp st show ?thesis by blast
qed

theorem absent_active_track_moves_into_queue_witness:
  "[trackA, trackB] \<noteq> []
   \<and> ''c'' \<notin> id_t ` set [trackA, trackB]
   \<and> activeTrackId (playing ''c'' [trackA, trackB] 2) = Some ''c''
   \<and> nextTrackId env_ok ''c'' [trackA, trackB] False = Inr ''a''
   \<and> activeTrackId (fst (handleNext env_ok (playing ''c'' [trackA, trackB] 2))) = Some ''a''
   \<and> prevTrackId env_ok ''c'' [trackA, trackB] False = Inr ''a''
   \<and> activeTrackId (fst (handlePrevious env_ok (playing ''c'' [trackA, trackB] 2))) = Some ''a''"
proof -
  let ?s = "playing ''c'' [trackA, trackB] 2"
  have h1: "[trackA, trackB] \<noteq> []" and h2: "''c'' \<notin> id_t ` set [trackA, trackB]"
    and c: "activeTrackId ?s = Some ''c''" "''c'' \<noteq> []" "currentQueue ?s = [trackA, trackB]"
      "\<not> isShuffle ?s" "\<forall>el. audioRef ?s = Some el \<longrightarrow> el_currentTime el \<le> 3"
    by (simp_all add: fixtures)
  from absent_active_track_moves_into_queue [OF h1 h2, of env_ok ?s] c
  have "nextTrackId env_ok ''c'' [trackA, trackB] False = Inr (id_t ([trackA, trackB] ! 0))"
    and "activeTrackId (fst (handleNext env_ok ?s)) = Some (id_t ([trackA, trackB] ! 0))"
    and "prevTrackId env_ok ''c'' [trackA, trackB] False = Inr (id_t ([trackA, trackB] ! 0))"
    and "activeTrackId (fst (handlePrevious env_ok ?s)) = Some (id_t ([trackA, trackB] ! 0))"
    by simp_all
  with h1 h2 c(1) show ?thesis by (simp add: trackA_def)
qed

theorem absent_active_track_counterexample:
  "activeTrackId (playing ''x'' [trackA, trackB, trackC] 1) = Some ''x''
   \<and> currentQueue (playing ''x'' [trackA, trackB, trackC] 1) = [trackA, trackB, trackC]
   \<and> ''x'' \<notin> id_t ` set [trackA, trackB, trackC]
   \<and> nextTrackId env_ok ''x'' [trackA, trackB, trackC] False = Inr ''a''
   \<and> prevTrackId env_ok ''x'' [trackA, trackB, trackC] False = Inr ''b''
   \<and> activeTrackId (fst (handleNext env_ok (playing ''x'' [trackA, trackB, trackC] 1))) = Some ''a''
   \<and> activeTrackId (fst (handlePrevious env_ok (playing ''x'' [trackA, trackB, trackC] 1)))
        = Some ''b''"
  by (simp add: fixtures handler_defs)

text \<open>
  C10. For a queue that is not empty, either shuffle setting and every value of
  \<open>Math.random()\<close> in [0, 1), the id computed by next, and the id computed by previous
  when it advances (not more than 3 seconds elapsed), is the id of a queue member, also
  when the active id itself is not in the queue: no index leaves the array. In a state
  with that queue and an active track, the id computed becomes the active id and the
  queue stays as it is, so the active id refers to a queue member afterwards.
\<close>

theorem selected_track_is_queue_member:
  assumes "q \<noteq> []" and "0 \<le> mathRandom env" and "mathRandom env < 1"
  shows "(\<exists>n. nextTrackId env a q sh = Inr n \<and> n \<in> id_t ` set q
            \<and> (activeTrackId s = Some a \<and> a \<noteq> [] \<and> currentQueue s = q \<and> isShuffle s = sh \<longrightarrow>
                 activeTrackId (fst (handleNext env s)) = Some n
               \<and> currentQueue (fst (handleNext env s)) = q))
       \<and> (\<exists>p. prevTrackId env a q sh = Inr p \<and> p \<in> id_t ` set q
            \<and> (activeTrackId s = Some a \<and> a \<noteq> [] \<and> currentQueue s = q \<and> isShuffle s = sh
                 \<and> (\<forall>el. audioRef s = Some el \<longrightarrow> el_currentTime el \<le> 3) \<longrightarrow>
                 activeTrackId (fst (handlePrevious env s)) = Some p
               \<and> currentQueue (fst (handlePrevious env s)) = q))"
proof (intro conjI)
  from nextTrackId_member [OF assms]
  obtain n where n: "nextTrackId env a q sh = Inr n" "n \<in> id_t ` set q" by blast
  have "activeTrackId (fst (handleNext env s)) = Some n
      \<and> currentQueue (fst (handleNext env s)) = q"
    if c: "activeTrackId s = Some a \<and> a \<noteq> [] \<and> currentQueue s = q \<and> isShuffle s = sh"
    using c n handleNext_selects(1,2) [of s a env n] by auto
  with n show "\<exists>n. nextTrackId env a q sh = Inr n \<and> n \<in> id_t ` set q
            \<and> (activeTrackId s = Some a \<and> a \<noteq> [] \<and> currentQueue s = q \<and> isShuffle s = sh \<longrightarrow>
                 activeTrackId (fst (handleNext env s)) = Some n
               \<and> currentQueue (fst (handleNext env s)) = q)"
    by blast
next
  from prevTrackId_member [OF assms]
  obtain p where p: "prevTrackId env a q sh = Inr p" "p \<in> id_t ` set q" by blast
  have "activeTrackId (fst (handlePrevious env s)) = Some p
      \<and> currentQueue (fst (handlePrevious env s)) = q"
    if c: "activeTrackId s = Some a \<and> a \<noteq> [] \<and> currentQueue s = q \<and> isShuffle s = sh
           \<and> (\<forall>el. audioRef s = Some el \<longrightarrow> el_currentTime el \<le> 3)"
    using c p handlePrevious_selects(1,2) [of s a env p] by auto
  with p show "\<exists>p. prevTrackId env a q sh = Inr p \<and> p \<in> id_t ` set q
            \<and> (activeTrackId s = Some a \<and> a \<noteq> [] \<and> currentQueue s = q \<and> isShuffle s = sh
                 \<and> (\<forall>el. audioRef s = Some el \<longrightarrow> el_currentTime el \<le> 3) \<longrightarrow>
                 activeTrackId (fst (handlePrevious env s)) = Some p
               \<and> currentQueue (fst (handlePrevious env s)) = q)"
    by blast
qed

theorem selected_track_is_queue_member_witness:
  "[trackB, trackC] \<noteq> [] \<and> 0 \<le> mathRandom env_ok \<and> mathRandom env_ok < 1
   \<and> activeTrackId (playing ''x'' [trackB, trackC] 3) = Some ''x''
   \<and> (\<exists>n. nextTrackId env_ok ''x'' [trackB, trackC] False = Inr n
          \<and> n \<in> id_t ` set [trackB, trackC]
          \<and> activeTrackId (fst (handleNext env_ok (playing ''x'' [trackB, trackC] 3))) = Some n)
   \<and> (\<exists>p. prevTrackId env_ok ''x'' [trackB, trackC] False = Inr p
          \<and> p \<in> id_t ` set [trackB, trackC]
          \<and> activeTrackId (fst (handlePrevious env_ok (playing ''x'' [trackB, trackC] 3))) = Some p)"
proof -
  let ?s = "playing ''x'' [trackB, trackC] 3"
  have h1: "[trackB, trackC] \<noteq> []"
    and h2: "0 \<le> mathRandom env_ok" and h3: "mathRandom env_ok < 1"
    and c: "activeTrackId ?s = Some ''x''" "''x'' \<noteq> []" "currentQueue ?s = [trackB, trackC]"
      "isShuffle ?s = False" "\<forall>el. audioRef ?s = Some el \<longrightarrow> el_currentTime el \<le> 3"
    by (simp_all add: fixtures)
  from selected_track_is_queue_member [OF h1 h2 h3, of "''x''" False ?s] c
  have "\<exists>n. nextTrackId env_ok ''x'' [trackB, trackC] False = Inr n
          \<and> n \<in> id_t ` set [trackB, trackC]
          \<and> activeTrackId (fst (handleNext env_ok ?s)) = Some n"
    and "\<exists>p. prevTrackId env_ok ''x'' [trackB, trackC] False = Inr p
          \<and> p \<in> id_t ` set [trackB, trackC]
          \<and> activeTrackId (fst (handlePrevious env_ok ?s)) = Some p"
    by blast+
  with h1 h2 h3 c(1) show ?thesis by blast
qed

text \<open>
  C5. Track ids are unique within the queue (the invariant of the data model) and the
  active id is the id of a queue member. With shuffle on and for every value of
  \<open>Math.random()\<close> in [0, 1): when the queue has at least two members, the id computed by
  next and the id computed by previous differ from the active id; when the queue has
  exactly one member, both are the active id. In a state with that active track and queue,
  the id computed becomes the active id (for previous in the first case, when not more
  than 3 seconds have elapsed).
\<close>

theorem shuffle_never_repeats_current:
  assumes "a \<in> id_t ` set q" and "distinct (map id_t q)"
    and "0 \<le> mathRandom env" and "mathRandom env < 1"
  shows "(2 \<le> length q \<longrightarrow>
            (\<exists>b. nextTrackId env a q True = Inr b \<and> b \<noteq> a
                 \<and> (activeTrackId s = Some a \<and> a \<noteq> [] \<and> currentQueue s = q \<and> isShuffle s \<longrightarrow>
                      activeTrackId (fst (handleNext env s)) = Some b))
          \<and> (\<exists>b. prevTrackId env a q True = Inr b \<and> b \<noteq> a
                 \<and> (activeTrackId s = Some a \<and> a \<noteq> [] \<and> currentQueue s = q \<and> isShuffle s
                      \<and> (\<forall>el. audioRef s = Some el \<longrightarrow> el_currentTime el \<le> 3) \<longrightarrow>
                      activeTrackId (fst (handlePrevious env s)) = Some b)))
       \<and> (length q = 1 \<longrightarrow>
            nextTrackId env a q True = Inr a \<and> prevTrackId env a q True = Inr a
          \<and> (activeTrackId s = Some a \<and> a \<noteq> [] \<and> currentQueue s = q \<and> isShuffle s \<longrightarrow>
               activeTrackId (fst (handleNext env s)) = Some a
             \<and> activeTrackId (fst (handlePrevious env s)) = Some a))"
proof (intro conjI impI)
  assume "2 \<le> length q"
  with assms(2) have "\<exists>t \<in> set q. id_t t \<noteq> a" by (rule distinct_ids_other_member)
  from shufflePick_others [OF assms(3,4) this]
  obtain b where b: "shufflePick env a q = Inr b" "b \<noteq> a" "b \<in> id_t ` set q" by blast
  then have nx: "nextTrackId env a q True = Inr b" and pv: "prevTrackId env a q True = Inr b"
    by (simp_all add: nextTrackId_def prevTrackId_def)
  have "activeTrackId (fst (handleNext env s)) = Some b"
    if c: "activeTrackId s = Some a \<and> a \<noteq> [] \<and> currentQueue s = q \<and> isShuffle s"
    using c nx b(3) handleNext_selects(1) [of s a env b] by auto
  with nx b(2) show "\<exists>b. nextTrackId env a q True = Inr b \<and> b \<noteq> a
                 \<and> (activeTrackId s = Some a \<and> a \<noteq> [] \<and> currentQueue s = q \<and> isShuffle s \<longrightarrow>
                      activeTrackId (fst (handleNext env s)) = Some b)"
    by blast
  have "activeTrackId (fst (handlePrevious env s)) = Some b"
    if c: "activeTrackId s = Some a \<and> a \<noteq> [] \<and> currentQueue s = q \<and> isShuffle s
           \<and> (\<forall>el. audioRef s = Some el \<longrightarrow> el_currentTime el \<le> 3)"
    using c pv b(3) handlePrevious_selects(1) [of s a env b] by auto
  with pv b(2) show "\<exists>b. prevTrackId env a q True = Inr b \<and> b \<noteq> a
                 \<and> (activeTrackId s = Some a \<and> a \<noteq> [] \<and> currentQueue s = q \<and> isShuffle s
                      \<and> (\<forall>el. audioRef s = Some el \<longrightarrow> el_currentTime el \<le> 3) \<longrightarrow>
                      activeTrackId (fst (handlePrevious env s)) = Some b)"
    by blast
next
  assume "length q = 1"
  then have "\<forall>t \<in> set q. id_t t = a" using assms(1) by (rule single_member_is_active)
  then have "shufflePick env a q = Inr a" by (rule shufflePick_alone)
  then show "nextTrackId env a q True = Inr a"
    by (simp add: nextTrackId_def)
next
  assume "length q = 1"
  then have "\<forall>t \<in> set q. id_t t = a" using assms(1) by (rule single_member_is_active)
  then have "shufflePick env a q = Inr a" by (rule shufflePick_alone)
  then show "prevTrackId env a q True = Inr a"
    by (simp add: prevTrackId_def)
next
  assume "length q = 1"
    and c: "activeTrackId s = Some a \<and> a \<noteq> [] \<and> currentQueue s = q \<and> isShuffle s"
  then have "\<forall>t \<in> set q. id_t t = a" using assms(1) by (intro single_member_is_active)
  then have "shufflePick env a q = Inr a" by (rule shufflePick_alone)
  then have "nextTrackId env a q True = Inr a" by (simp add: nextTrackId_def)
  with c assms(1) show "activeTrackId (fst (handleNext env s)) = Some a"
    using handleNext_selects(1) [of s a env a] by auto
next
  assume "length q = 1"
    and c: "activeTrackId s = Some a \<and> a \<noteq> [] \<and> currentQueue s = q \<and> isShuffle s"
  then have "\<forall>t \<in> set q. id_t t = a" using assms(1) by (intro single_member_is_active)
  then have "shufflePick env a q = Inr a" by (rule shufflePick_alone)
  then have "prevTrackId env a q True = Inr a" by (simp add: prevTrackId_def)
  with c assms(1) show "activeTrackId (fst (handlePrevious env s)) = Some a"
    using handlePrevious_keeps_sole_track [of s a env] by auto
qed

theorem shuffle_never_repeats_current_witness:
  "''a'' \<in> id_t ` set [trackA, trackB, trackC]
   \<and> distinct (map id_t [trackA, trackB, trackC])
   \<and> 0 \<le> mathRandom env_ok \<and> mathRandom env_ok < 1
   \<and> activeTrackId (toggleShuffle (playing ''a'' [trackA, trackB, trackC] 1)) = Some ''a''
   \<and> isShuffle (toggleShuffle (playing ''a'' [trackA, trackB, trackC] 1))
   \<and> nextTrackId env_ok ''a'' [trackA, trackB, trackC] True = Inr ''c''
   \<and> prevTrackId env_ok ''a'' [trackA, trackB, trackC] True = Inr ''c''
   \<and> activeTrackId (fst (handleNext env_ok (toggleShuffle (playing ''a'' [trackA, trackB, trackC] 1))))
        = Some ''c''
   \<and> activeTrackId
        (fst (handlePrevious env_ok (toggleShuffle (playing ''a'' [trackA, trackB, trackC] 1))))
        = Some ''c''
   \<and> nextTrackId env_ok ''a'' [trackA] True = Inr ''a''
   \<and> activeTrackId (fst (handleNext env_ok (toggleShuffle (playing ''a'' [trackA] 1)))) = Some ''a''
   \<and> activeTrackId (fst (handlePrevious env_ok (toggleShuffle (playing ''a'' [trackA] 1))))
        = Some ''a''"
proof -
  let ?q = "[trackA, trackB, trackC]"
  let ?s = "toggleShuffle (playing ''a'' ?q 1)"
  let ?s1 = "toggleShuffle (playing ''a'' [trackA] 1)"
  have h1: "''a'' \<in> id_t ` set ?q" and h2: "distinct (map id_t ?q)"
    and h3: "0 \<le> mathRandom env_ok" and h4: "mathRandom env_ok < 1"
    and len: "2 \<le> length ?q"
    and c: "activeTrackId ?s = Some ''a''" "''a'' \<noteq> []" "currentQueue ?s = ?q" "isShuffle ?s"
      "\<forall>el. audioRef ?s = Some el \<longrightarrow> el_currentTime el \<le> 3"
    by (simp_all add: fixtures toggleShuffle_def)
  have g1: "''a'' \<in> id_t ` set [trackA]" and g2: "distinct (map id_t [trackA])"
    and len1: "length [trackA] = 1"
    and c1: "activeTrackId ?s1 = Some ''a''" "currentQueue ?s1 = [trackA]" "isShuffle ?s1"
    by (simp_all add: fixtures toggleShuffle_def)
  have pick: "nextTrackId env_ok ''a'' ?q True = Inr ''c''"
      "prevTrackId env_ok ''a'' ?q True = Inr ''c''"
    by (simp_all add: fixtures nextTrackId_def prevTrackId_def shufflePick_def id_at_def)
  from shuffle_never_repeats_current [OF h1 h2 h3 h4, of ?s] len c pick
  have many: "activeTrackId (fst (handleNext env_ok ?s)) = Some ''c''"
      "activeTrackId (fst (handlePrevious env_ok ?s)) = Some ''c''"
    by auto
  from shuffle_never_repeats_current [OF g1 g2 h3 h4, of ?s1] len1 c1 c(2)
  have one: "nextTrackId env_ok ''a'' [trackA] True = Inr ''a''"
      "activeTrackId (fst (handleNext env_ok ?s1)) = Some ''a''"
      "activeTrackId (fst (handlePrevious env_ok ?s1)) = Some ''a''"
    by simp_all
  from h1 h2 h3 h4 c(1,4) pick many one show ?thesis by blast
qed

text \<open>
  C6. Track ids are unique within the queue (the invariant of the data model) and the
  active id is the id of a queue member. With shuffle off, previous computes the active id
  again from the id that next computes, also over the step from the last queue position
  to the first. In a state with that active track and queue, next makes the id it
  computes the active one; and when no track id is the empty string (which the handlers
  read as no active track), previous, called in any state that has the cursor, queue and
  shuffle flag left by next and in which not more than 3 seconds have elapsed, makes the
  original track the active one again.
\<close>

theorem next_then_previous_returns:
  assumes "a \<in> id_t ` set q" and "distinct (map id_t q)"
  shows "(\<exists>b. nextTrackId env a q False = Inr b \<and> prevTrackId env' b q False = Inr a
            \<and> (activeTrackId s = Some a \<and> a \<noteq> [] \<and> currentQueue s = q \<and> \<not> isShuffle s \<longrightarrow>
                 activeTrackId (fst (handleNext env s)) = Some b))
       \<and> (activeTrackId s = Some a \<and> currentQueue s = q \<and> \<not> isShuffle s
            \<and> [] \<notin> id_t ` set q
            \<and> activeTrackId s' = activeTrackId (fst (handleNext env s))
            \<and> currentQueue s' = currentQueue (fst (handleNext env s))
            \<and> isShuffle s' = isShuffle (fst (handleNext env s))
            \<and> (\<forall>el. audioRef s' = Some el \<longrightarrow> el_currentTime el \<le> 3) \<longrightarrow>
            activeTrackId (fst (handlePrevious env' s')) = Some a)"
proof -
  from assms(1) obtain i where i: "i < length q" "a = id_t (q ! i)"
    by (auto simp: in_set_conv_nth)
  from next_then_previous_id [OF assms(2) i(1), of env env'] i(2)
  obtain j where j: "j < length q" "nextTrackId env a q False = Inr (id_t (q ! j))"
      "prevTrackId env' (id_t (q ! j)) q False = Inr a"
    by auto
  let ?b = "id_t (q ! j)"
  from j(1) have bq: "?b \<in> id_t ` set q" by simp
  have nx: "activeTrackId (fst (handleNext env s)) = Some ?b
          \<and> currentQueue (fst (handleNext env s)) = q
          \<and> \<not> isShuffle (fst (handleNext env s))"
    if c: "activeTrackId s = Some a \<and> a \<noteq> [] \<and> currentQueue s = q \<and> \<not> isShuffle s"
    using c j(2) bq handleNext_selects [of s a env ?b] by auto
  have ret: "activeTrackId (fst (handlePrevious env' s')) = Some a"
    if c: "activeTrackId s = Some a \<and> currentQueue s = q \<and> \<not> isShuffle s
           \<and> [] \<notin> id_t ` set q
           \<and> activeTrackId s' = activeTrackId (fst (handleNext env s))
           \<and> currentQueue s' = currentQueue (fst (handleNext env s))
           \<and> isShuffle s' = isShuffle (fst (handleNext env s))
           \<and> (\<forall>el. audioRef s' = Some el \<longrightarrow> el_currentTime el \<le> 3)"
  proof -
    from c assms(1) have ane: "a \<noteq> []" by metis
    from c bq have bne: "?b \<noteq> []" by metis
    from nx c ane have a': "activeTrackId s' = Some ?b" and q': "currentQueue s' = q"
      and sh': "isShuffle s' = False"
      by simp_all
    have "prevTrackId env' ?b (currentQueue s') (isShuffle s') = Inr a"
      using j(3) q' sh' by simp
    moreover have "a \<in> id_t ` set (currentQueue s')" using assms(1) q' by simp
    ultimately show ?thesis
      using a' bne c handlePrevious_selects(1) [of s' ?b env' a] by blast
  qed
  from j(2,3) nx ret show ?thesis by blast
qed

theorem next_then_previous_returns_witness:
  "''c'' \<in> id_t ` set [trackA, trackB, trackC]
   \<and> distinct (map id_t [trackA, trackB, trackC])
   \<and> [] \<notin> id_t ` set [trackA, trackB, trackC]
   \<and> activeTrackId (playing ''c'' [trackA, trackB, trackC] 1) = Some ''c''
   \<and> nextTrackId env_ok ''c'' [trackA, trackB, trackC] False = Inr ''a''
   \<and> prevTrackId env_ok ''a'' [trackA, trackB, trackC] False = Inr ''c''
   \<and> activeTrackId (fst (handleNext env_ok (playing ''c'' [trackA, trackB, trackC] 1))) = Some ''a''
   \<and> activeTrackId
        (fst (handlePrevious env_ok
               (fst (handleNext env_ok (playing ''c'' [trackA, trackB, trackC] 1)))))
        = Some ''c''"
proof -
  let ?q = "[trackA, trackB, trackC]"
  let ?s = "playing ''c'' ?q 1"
  let ?s' = "fst (handleNext env_ok ?s)"
  have h1: "''c'' \<in> id_t ` set ?q" and h2: "distinct (map id_t ?q)"
    and c: "activeTrackId ?s = Some ''c''" "currentQueue ?s = ?q" "\<not> isShuffle ?s"
      "[] \<notin> id_t ` set ?q"
    by (simp_all add: fixtures)
  have ev: "nextTrackId env_ok ''c'' ?q False = Inr ''a''"
      "prevTrackId env_ok ''a'' ?q False = Inr ''c''"
      "activeTrackId ?s' = Some ''a''"
    and el: "\<forall>el. audioRef ?s' = Some el \<longrightarrow> el_currentTime el \<le> 3"
    by (simp_all add: fixtures handler_defs)
  from next_then_previous_returns [OF h1 h2, of env_ok env_ok ?s ?s'] c el
  have "activeTrackId (fst (handlePrevious env_ok ?s')) = Some ''c''" by blast
  with h1 h2 c(1,4) ev show ?thesis by blast
qed

section \<open>Claims about reporting, failure, seeking and restarting\<close>

lemma initAudioEngine_effects:
  "set (snd (initAudioEngine env s)) \<subseteq> {CreateAudioGraph, ResumeContext}"
  by (auto simp: initAudioEngine_def Let_def split: prod.splits if_splits)

lemma reportPlay_effects:
  "e \<in> set (reportPlay env s) \<Longrightarrow> \<exists>u n. e = UpdateTotalPlays u n"
  by (auto simp: reportPlay_def split: option.splits if_splits fetched.splits)

lemma handleTrackSelect_no_playtime:
  "UpdateTotalPlaytime u v \<notin> set (snd (handleTrackSelect env n queue s))"
proof
  assume a: "UpdateTotalPlaytime u v \<in> set (snd (handleTrackSelect env n queue s))"
  obtain s1 e1 where i: "initAudioEngine env s = (s1, e1)" by (cases "initAudioEngine env s")
  then have e1: "UpdateTotalPlaytime u v \<notin> set e1"
    using initAudioEngine_effects [of env s] by auto
  have rp: "UpdateTotalPlaytime u v \<notin> set (reportPlay env s)"
    using reportPlay_effects [of "UpdateTotalPlaytime u v" env s] by auto
  from a i e1 rp show False
    by (auto simp: handleTrackSelect_def Let_def split: option.splits prod.splits if_splits)
qed

text \<open>
  C2, as amended. Previous never writes the playtime, whether it advances or restarts.
  Next, with an active track, a queue that is not empty, a signed-in user, a known duration
  above 0 and a profile row that could be read, called when the track has played to its end
  (the elapsed time of the audio element equals the known duration), first writes the
  stored playtime plus that elapsed time, before it selects the following track, and
  nothing else it does writes the playtime again.
\<close>

theorem playtime_reported_when_track_finished:
  "(\<forall>u v. UpdateTotalPlaytime u v \<notin> set (snd (handlePrevious env s)))
   \<and> (activeTrackId s = Some a \<and> a \<noteq> [] \<and> currentQueue s \<noteq> []
        \<and> session s = Some uid \<and> uid \<noteq> [] \<and> 0 < duration s
        \<and> totalPlaytime env = Row p
        \<and> audioRef s = Some el \<and> el_currentTime el = duration s \<longrightarrow>
        (\<exists>rest. snd (handleNext env s)
                   = UpdateTotalPlaytime uid (or_zero p + el_currentTime el) # rest
               \<and> (\<forall>u v. UpdateTotalPlaytime u v \<notin> set rest)))"
proof (intro conjI allI impI)
  fix u v
  show "UpdateTotalPlaytime u v \<notin> set (snd (handlePrevious env s))"
    using handleTrackSelect_no_playtime [of u v env _ None s]
    by (auto simp: handlePrevious_def Let_def split: option.splits sum.splits if_splits)
next
  assume c: "activeTrackId s = Some a \<and> a \<noteq> [] \<and> currentQueue s \<noteq> []
        \<and> session s = Some uid \<and> uid \<noteq> [] \<and> 0 < duration s
        \<and> totalPlaytime env = Row p
        \<and> audioRef s = Some el \<and> el_currentTime el = duration s"
  then have g: "activeTrackId s = Some a" "a \<noteq> []" "currentQueue s \<noteq> []" by simp_all
  from c have rp: "reportPlaytime env s
                     = [UpdateTotalPlaytime uid (or_zero p + el_currentTime el)]"
    by (simp add: reportPlaytime_def)
  show "\<exists>rest. snd (handleNext env s)
                   = UpdateTotalPlaytime uid (or_zero p + el_currentTime el) # rest
               \<and> (\<forall>u v. UpdateTotalPlaytime u v \<notin> set rest)"
  proof (cases "nextTrackId env a (currentQueue s) (isShuffle s)")
    case (Inl err)
    then have "snd (handleNext env s)
                 = UpdateTotalPlaytime uid (or_zero p + el_currentTime el) # [Uncaught err]"
      using g rp by (simp add: handleNext_def)
    then show ?thesis by auto
  next
    case (Inr n)
    have "snd (handleNext env s)
            = UpdateTotalPlaytime uid (or_zero p + el_currentTime el)
              # snd (handleTrackSelect env n None s)"
      using handleNext_advance [OF g Inr] rp by simp
    then show ?thesis using handleTrackSelect_no_playtime by blast
  qed
qed

theorem playtime_reported_when_track_finished_witness:
  "activeTrackId (playing ''a'' [trackA, trackB] 200) = Some ''a''
   \<and> session (playing ''a'' [trackA, trackB] 200) = Some ''user''
   \<and> duration (playing ''a'' [trackA, trackB] 200) = 200
   \<and> audioRef (playing ''a'' [trackA, trackB] 200)
        = Some \<lparr>el_src = Some ''a.mp3'', el_currentTime = 200, el_duration = 200\<rparr>
   \<and> totalPlaytime env_ok = Row (Some 10)
   \<and> hd (snd (handleNext env_ok (playing ''a'' [trackA, trackB] 200)))
        = UpdateTotalPlaytime ''user'' (10 + 200)
   \<and> UpdateTotalPlaytime ''user'' (10 + 200)
        \<notin> set (snd (handlePrevious env_ok (playing ''a'' [trackA, trackB] 200)))"
proof -
  let ?s = "playing ''a'' [trackA, trackB] 200"
  let ?el = "\<lparr>el_src = Some ''a.mp3'', el_currentTime = 200, el_duration = 200\<rparr>"
  have c: "activeTrackId ?s = Some ''a''" "''a'' \<noteq> []" "currentQueue ?s \<noteq> []"
      "session ?s = Some ''user''" "''user'' \<noteq> []" "0 < duration ?s"
      "totalPlaytime env_ok = Row (Some 10)"
      "audioRef ?s = Some ?el" "el_currentTime ?el = duration ?s"
    and d: "duration ?s = 200"
    by (simp_all add: fixtures)
  from playtime_reported_when_track_finished
         [of env_ok ?s "''a''" "''user''" "Some 10" ?el] c
  have "hd (snd (handleNext env_ok ?s))
          = UpdateTotalPlaytime ''user'' (or_zero (Some 10) + el_currentTime ?el)"
    and "UpdateTotalPlaytime ''user'' (10 + 200) \<notin> set (snd (handlePrevious env_ok ?s))"
    by auto
  with c(1,4,7,8) d show ?thesis by (simp add: or_zero_def)
qed

theorem previous_reports_no_playtime_counterexample:
  "activeTrackId (playing ''a'' [trackA, trackB] 2) = Some ''a''
   \<and> currentQueue (playing ''a'' [trackA, trackB] 2) = [trackA, trackB]
   \<and> session (playing ''a'' [trackA, trackB] 2) = Some ''user''
   \<and> duration (playing ''a'' [trackA, trackB] 2) = 200
   \<and> currentTime (playing ''a'' [trackA, trackB] 2) = 2
   \<and> audioRef (playing ''a'' [trackA, trackB] 2)
        = Some \<lparr>el_src = Some ''a.mp3'', el_currentTime = 2, el_duration = 200\<rparr>
   \<and> totalPlaytime env_ok = Row (Some 10)
   \<and> activeTrackId (fst (handlePrevious env_ok (playing ''a'' [trackA, trackB] 2))) = Some ''b''
   \<and> snd (handlePrevious env_ok (playing ''a'' [trackA, trackB] 2))
        = [SetSrc ''b.mp3'', Play, UpdateTotalPlays ''user'' 4]"
  by (simp add: fixtures handlePrevious_def handleTrackSelect_def initAudioEngine_def
      reportPlay_def prevTrackId_def findIndex_def js_rem_def id_at_def or_zero_def)

lemma togglePlay_frame:
  "activeTrackId (fst (togglePlay env s)) = activeTrackId s"
  "audioRef (fst (togglePlay env s)) = audioRef s"
  "currentQueue (fst (togglePlay env s)) = currentQueue s"
  using initAudioEngine_frame [of env s]
  by (auto simp: togglePlay_def Let_def split: prod.splits)

lemma togglePlay_effects:
  "set (snd (togglePlay env s))
     \<subseteq> {CreateAudioGraph, ResumeContext, Play, Pause, ConsoleError ''Playback failed:''}"
  using initAudioEngine_effects [of env s]
  by (auto simp: togglePlay_def Let_def split: prod.splits if_splits)

lemma togglePlay_active:
  assumes "audioRef s \<noteq> None" and "activeTrackId s = Some a" and "a \<noteq> []"
  shows "isPlaying (fst (togglePlay env s)) = (\<not> isPlaying s)"
    and "isPlaying s \<Longrightarrow> Pause \<in> set (snd (togglePlay env s)) \<and> Play \<notin> set (snd (togglePlay env s))"
    and "\<not> isPlaying s \<Longrightarrow> Play \<in> set (snd (togglePlay env s)) \<and> Pause \<notin> set (snd (togglePlay env s))"
  using assms initAudioEngine_frame [of env s] initAudioEngine_effects [of env s]
  by (auto simp: togglePlay_def truthy_def Let_def split: prod.splits)

lemma handleTrackSelect_starts:
  assumes "audioRef s = Some el"
    and "find (\<lambda>t. id_t t = tid)
           (case queue of
              Some q \<Rightarrow> q
            | None \<Rightarrow> if currentQueue s \<noteq> [] then currentQueue s else tracks s) = Some track"
    and "audioUrl track = Some url" and "url \<noteq> []"
    and "activeTrackId s \<noteq> Some tid"
  shows "activeTrackId (fst (handleTrackSelect env tid queue s)) = Some tid"
    and "isPlaying (fst (handleTrackSelect env tid queue s))"
    and "audioRef (fst (handleTrackSelect env tid queue s)) = Some (el\<lparr>el_src := Some url\<rparr>)"
    and "playRejects env \<Longrightarrow>
           ConsoleError ''Playback failed:'' \<in> set (snd (handleTrackSelect env tid queue s))"
proof -
  obtain s1 e1 where i: "initAudioEngine env s = (s1, e1)" by (cases "initAudioEngine env s")
  have f: "audioRef s1 = audioRef s" using initAudioEngine_frame(5) [of env s] i by simp
  show "activeTrackId (fst (handleTrackSelect env tid queue s)) = Some tid"
    using assms i f by (cases queue) (simp_all add: handleTrackSelect_def Let_def)
  show "isPlaying (fst (handleTrackSelect env tid queue s))"
    using assms i f by (cases queue) (simp_all add: handleTrackSelect_def Let_def)
  show "audioRef (fst (handleTrackSelect env tid queue s)) = Some (el\<lparr>el_src := Some url\<rparr>)"
    using assms i f by (cases queue) (simp_all add: handleTrackSelect_def Let_def)
  show "ConsoleError ''Playback failed:'' \<in> set (snd (handleTrackSelect env tid queue s))"
    if "playRejects env"
    using that assms i f by (cases queue) (simp_all add: handleTrackSelect_def Let_def)
qed

text \<open>
  C3, as amended. When a track other than the active one is selected, is found in the
  effective queue and has an audio source, and \<open>play()\<close> fails, the failure is only
  written to the console: the track is marked active and the controller is in the playing
  state (\<open>isPlaying\<close> is set without regard to the outcome of \<open>play()\<close>). The first
  \<open>togglePlay\<close> after that pauses; the second calls \<open>play()\<close> again on the same source,
  with the same track active and without any new source being set.
\<close>

theorem failed_play_is_retried_by_second_toggle:
  fixes s :: AppState
  defines "target queue \<equiv>
             (case queue of
                Some q \<Rightarrow> q
              | None \<Rightarrow> if currentQueue s \<noteq> [] then currentQueue s else tracks s)"
  defines "s1 env tid queue \<equiv> fst (handleTrackSelect env tid queue s)"
  assumes "audioRef s = Some el"
    and "find (\<lambda>t. id_t t = tid) (target queue) = Some track"
    and "audioUrl track = Some url" and "url \<noteq> []"
    and "activeTrackId s \<noteq> Some tid" and "tid \<noteq> []"
    and "playRejects env"
  shows "activeTrackId (s1 env tid queue) = Some tid
       \<and> isPlaying (s1 env tid queue)
       \<and> audioRef (s1 env tid queue) = Some (el\<lparr>el_src := Some url\<rparr>)
       \<and> ConsoleError ''Playback failed:'' \<in> set (snd (handleTrackSelect env tid queue s))
       \<and> \<not> isPlaying (fst (togglePlay env2 (s1 env tid queue)))
       \<and> Pause \<in> set (snd (togglePlay env2 (s1 env tid queue)))
       \<and> Play \<notin> set (snd (togglePlay env2 (s1 env tid queue)))
       \<and> isPlaying (fst (togglePlay env3 (fst (togglePlay env2 (s1 env tid queue)))))
       \<and> Play \<in> set (snd (togglePlay env3 (fst (togglePlay env2 (s1 env tid queue)))))
       \<and> (\<forall>u. SetSrc u \<notin> set (snd (togglePlay env2 (s1 env tid queue)))
              \<and> SetSrc u \<notin> set (snd (togglePlay env3 (fst (togglePlay env2 (s1 env tid queue))))))
       \<and> activeTrackId (fst (togglePlay env3 (fst (togglePlay env2 (s1 env tid queue))))) = Some tid
       \<and> audioRef (fst (togglePlay env3 (fst (togglePlay env2 (s1 env tid queue)))))
            = Some (el\<lparr>el_src := Some url\<rparr>)"
proof -
  let ?s1 = "s1 env tid queue"
  let ?s2 = "fst (togglePlay env2 ?s1)"
  let ?s3 = "fst (togglePlay env3 ?s2)"
  have tq: "find (\<lambda>t. id_t t = tid)
              (case queue of
                 Some q \<Rightarrow> q
               | None \<Rightarrow> if currentQueue s \<noteq> [] then currentQueue s else tracks s) = Some track"
    using assms(4) unfolding target_def .
  note st = handleTrackSelect_starts [OF assms(3) tq assms(5,6,7), of env]
  have a1: "activeTrackId ?s1 = Some tid" and p1: "isPlaying ?s1"
    and r1: "audioRef ?s1 = Some (el\<lparr>el_src := Some url\<rparr>)"
    and c1: "ConsoleError ''Playback failed:'' \<in> set (snd (handleTrackSelect env tid queue s))"
    using st assms(9) unfolding s1_def by simp_all
  from r1 have n1: "audioRef ?s1 \<noteq> None" by simp
  note t2 = togglePlay_active [OF n1 a1 assms(8), of env2]
  have p2: "\<not> isPlaying ?s2" using t2(1) p1 by simp
  have e2: "Pause \<in> set (snd (togglePlay env2 ?s1))" "Play \<notin> set (snd (togglePlay env2 ?s1))"
    using t2(2) p1 by simp_all
  have a2: "activeTrackId ?s2 = Some tid" and r2: "audioRef ?s2 = Some (el\<lparr>el_src := Some url\<rparr>)"
    using togglePlay_frame(1,2) [of env2 ?s1] a1 r1 by simp_all
  from r2 have n2: "audioRef ?s2 \<noteq> None" by simp
  note t3 = togglePlay_active [OF n2 a2 assms(8), of env3]
  have p3: "isPlaying ?s3" using t3(1) p2 by simp
  have e3: "Play \<in> set (snd (togglePlay env3 ?s2))" using t3(3) p2 by simp
  have a3: "activeTrackId ?s3 = Some tid" and r3: "audioRef ?s3 = Some (el\<lparr>el_src := Some url\<rparr>)"
    using togglePlay_frame(1,2) [of env3 ?s2] a2 r2 by simp_all
  have ns: "\<forall>u. SetSrc u \<notin> set (snd (togglePlay env2 ?s1))
              \<and> SetSrc u \<notin> set (snd (togglePlay env3 ?s2))"
    using togglePlay_effects [of env2 ?s1] togglePlay_effects [of env3 ?s2] by auto
  from a1 p1 r1 c1 p2 e2 p3 e3 ns a3 r3 show ?thesis by blast
qed

theorem failed_play_is_retried_by_second_toggle_witness:
  "audioRef mounted = Some \<lparr>el_src = None, el_currentTime = 0, el_duration = 0\<rparr>
   \<and> find (\<lambda>t. id_t t = ''b'') [trackA, trackB] = Some trackB
   \<and> audioUrl trackB = Some ''b.mp3''
   \<and> activeTrackId mounted \<noteq> Some ''b''
   \<and> playRejects env_fail
   \<and> activeTrackId (fst (handleTrackSelect env_fail ''b'' (Some [trackA, trackB]) mounted))
        = Some ''b''
   \<and> isPlaying (fst (handleTrackSelect env_fail ''b'' (Some [trackA, trackB]) mounted))
   \<and> \<not> isPlaying
         (fst (togglePlay env_fail
                (fst (handleTrackSelect env_fail ''b'' (Some [trackA, trackB]) mounted))))
   \<and> Play \<in> set (snd (togglePlay env_ok
          (fst (togglePlay env_fail
                 (fst (handleTrackSelect env_fail ''b'' (Some [trackA, trackB]) mounted))))))"
proof -
  let ?el = "\<lparr>el_src = None, el_currentTime = 0, el_duration = 0\<rparr>"
  have h1: "audioRef mounted = Some ?el"
    and h2: "find (\<lambda>t. id_t t = ''b'')
               (case Some [trackA, trackB] of
                  Some q \<Rightarrow> q
                | None \<Rightarrow> if currentQueue mounted \<noteq> [] then currentQueue mounted
                          else tracks mounted) = Some trackB"
    and h3: "audioUrl trackB = Some ''b.mp3''" and h4: "''b.mp3'' \<noteq> []"
    and h5: "activeTrackId mounted \<noteq> Some ''b''" and h6: "''b'' \<noteq> []"
    and h7: "playRejects env_fail"
    by (simp_all add: fixtures)
  have f: "find (\<lambda>t. id_t t = ''b'') [trackA, trackB] = Some trackB"
    by (simp add: fixtures)
  from failed_play_is_retried_by_second_toggle
         [OF h1 h2 h3 h4 h5 h6 h7, of env_fail env_ok] h1 f h3 h5 h7
  show ?thesis by blast
qed

theorem failed_play_counterexample:
  "playRejects env_fail
   \<and> snd (handleTrackSelect env_fail ''a'' (Some [trackA, trackB]) mounted)
        = [CreateAudioGraph, SetSrc ''a.mp3'', Play, ConsoleError ''Playback failed:'',
           UpdateTotalPlays ''user'' 4]
   \<and> activeTrackId (fst (handleTrackSelect env_fail ''a'' (Some [trackA, trackB]) mounted))
        = Some ''a''
   \<and> isPlaying (fst (handleTrackSelect env_fail ''a'' (Some [trackA, trackB]) mounted)) = True
   \<and> snd (togglePlay env_ok
             (fst (handleTrackSelect env_fail ''a'' (Some [trackA, trackB]) mounted)))
        = [Pause]
   \<and> isPlaying
        (fst (togglePlay env_ok
               (fst (handleTrackSelect env_fail ''a'' (Some [trackA, trackB]) mounted))))
        = False"
  by (simp add: fixtures handler_defs)

text \<open>
  C4, as amended. With the audio element present, \<open>handleSeek\<close> assigns the requested
  time as it is, to the element and to the reported position, without clamping; the
  reported position equals the clamped value exactly for requests inside [0, duration].
  Without the element it changes nothing.
\<close>

theorem seek_reports_requested_time:
  assumes "audioRef s = Some el"
  shows "currentTime (handleSeek t s) = t
       \<and> audioRef (handleSeek t s) = Some (el\<lparr>el_currentTime := t\<rparr>)
       \<and> (0 \<le> t \<and> t \<le> duration s \<longrightarrow>
            currentTime (handleSeek t s) = min (max t 0) (duration s))
       \<and> (0 \<le> duration s \<and> currentTime (handleSeek t s) = min (max t 0) (duration s) \<longrightarrow>
            0 \<le> t \<and> t \<le> duration s)"
  using assms by (auto simp: handleSeek_def)

theorem seek_reports_requested_time_witness:
  "audioRef (playing ''a'' [trackA] 50)
     = Some \<lparr>el_src = Some ''a.mp3'', el_currentTime = 50, el_duration = 200\<rparr>
   \<and> duration (playing ''a'' [trackA] 50) = 200
   \<and> currentTime (handleSeek 120 (playing ''a'' [trackA] 50)) = 120
   \<and> min (max 120 0) (duration (playing ''a'' [trackA] 50)) = 120"
proof -
  let ?s = "playing ''a'' [trackA] 50"
  have h: "audioRef ?s = Some \<lparr>el_src = Some ''a.mp3'', el_currentTime = 50, el_duration = 200\<rparr>"
    and d: "duration ?s = 200"
    by (simp_all add: fixtures)
  from seek_reports_requested_time [OF h, of 120] h d show ?thesis by simp
qed

theorem seek_clamp_counterexample:
  "duration (playing ''a'' [trackA] 50) = 200
   \<and> currentTime (handleSeek (- 5) (playing ''a'' [trackA] 50)) = - 5
   \<and> min (max (- 5) 0) (duration (playing ''a'' [trackA] 50)) = 0
   \<and> currentTime (handleSeek 250 (playing ''a'' [trackA] 50)) = 250
   \<and> min (max 250 0) (duration (playing ''a'' [trackA] 50)) = 200"
  by (simp add: fixtures handleSeek_def)

text \<open>
  C7, as amended. In every state with an active track and a queue that is not empty in
  which more than 3 seconds have elapsed, previous changes nothing but the playback
  position of the audio element, which it sets to 0: the active track id, the queue, the
  shuffle flag and every other component stay as they are, nothing is reported and no
  track is selected. With no active track or an empty queue, previous does nothing at all,
  whatever the elapsed time.
\<close>

theorem previous_restarts_after_three_seconds:
  assumes "audioRef s = Some el" and "3 < el_currentTime el"
  shows "handlePrevious env s
           = (if truthy (activeTrackId s) \<and> currentQueue s \<noteq> []
              then s\<lparr>audioRef := Some (el\<lparr>el_currentTime := 0\<rparr>)\<rparr> else s, [])
       \<and> activeTrackId (fst (handlePrevious env s)) = activeTrackId s
       \<and> currentQueue (fst (handlePrevious env s)) = currentQueue s
       \<and> isShuffle (fst (handlePrevious env s)) = isShuffle s
       \<and> snd (handlePrevious env s) = []"
  using assms by (auto simp: handlePrevious_def truthy_def Let_def split: option.splits)

theorem previous_restarts_after_three_seconds_witness:
  "audioRef (playing ''b'' [trackA, trackB] 10)
     = Some \<lparr>el_src = Some ''b.mp3'', el_currentTime = 10, el_duration = 200\<rparr>
   \<and> handlePrevious env_ok (playing ''b'' [trackA, trackB] 10)
        = ((playing ''b'' [trackA, trackB] 10)
             \<lparr>audioRef := Some \<lparr>el_src = Some ''b.mp3'', el_currentTime = 0, el_duration = 200\<rparr>\<rparr>,
           [])"
proof -
  let ?s = "playing ''b'' [trackA, trackB] 10"
  let ?el = "\<lparr>el_src = Some ''b.mp3'', el_currentTime = 10, el_duration = 200\<rparr>"
  have h1: "audioRef ?s = Some ?el" and h2: "3 < el_currentTime ?el"
    and g: "truthy (activeTrackId ?s)" "currentQueue ?s \<noteq> []"
    by (simp_all add: fixtures truthy_def)
  from previous_restarts_after_three_seconds [OF h1 h2, of env_ok] g h1
  show ?thesis by simp
qed

theorem previous_restart_counterexample:
  "activeTrackId (fst (handleTrackSelect env_ok ''b'' (Some []) (playing ''a'' [trackA] 10)))
     = Some ''a''
   \<and> currentQueue (fst (handleTrackSelect env_ok ''b'' (Some []) (playing ''a'' [trackA] 10)))
        = []
   \<and> audioRef (fst (handleTrackSelect env_ok ''b'' (Some []) (playing ''a'' [trackA] 10)))
        = Some \<lparr>el_src = Some ''a.mp3'', el_currentTime = 10, el_duration = 200\<rparr>
   \<and> handlePrevious env_ok
        (fst (handleTrackSelect env_ok ''b'' (Some []) (playing ''a'' [trackA] 10)))
        = (fst (handleTrackSelect env_ok ''b'' (Some []) (playing ''a'' [trackA] 10)), [])
   \<and> activeTrackId (playing ''b'' [] 10) = Some ''b''
   \<and> currentQueue (playing ''b'' [] 10) = []
   \<and> audioRef (playing ''b'' [] 10)
        = Some \<lparr>el_src = Some ''b.mp3'', el_currentTime = 10, el_duration = 200\<rparr>
   \<and> handlePrevious env_ok (playing ''b'' [] 10) = (playing ''b'' [] 10, [])"
  by (simp add: fixtures handlePrevious_def handleTrackSelect_def initAudioEngine_def)

text \<open>
  C9, as amended. The progress percentage is 0 whenever the duration is 0, also when the
  position is 0 as well; for a duration other than 0 it is 100 exactly when the position
  equals the duration.
\<close>

theorem progress_is_full_exactly_at_duration:
  "progressPercentage ct 0 = 0
   \<and> (d \<noteq> 0 \<longrightarrow> (progressPercentage ct d = 100 \<longleftrightarrow> ct = d))"
  by (auto simp: progressPercentage_def divide_eq_eq)

theorem progress_is_full_exactly_at_duration_witness:
  "(200::real) \<noteq> 0 \<and> progressPercentage 200 200 = 100 \<and> progressPercentage 50 200 \<noteq> 100
   \<and> progressPercentage 50 0 = 0"
  using progress_is_full_exactly_at_duration [of 200 200]
    progress_is_full_exactly_at_duration [of 50 200]
  by simp

theorem progress_counterexample:
  "progressPercentage 0 0 = 0 \<and> \<not> (progressPercentage 0 0 = 100 \<longleftrightarrow> (0::real) = 0)"
  by (simp add: progressPercentage_def)

section \<open>Claims about the spectrum bars\<close>






end
